theory Spec2Isabelle
  imports Main "HOL-Library.AList"
begin

section \<open>JavaScript values and records\<close>

text \<open>
  The library works on plain JavaScript data. A value is a primitive, an array or a plain
  object; a record (a parent, a child, a middle item) is a plain object, written as the list of
  its own properties in the order JavaScript enumerates them.

  Scope of the value model: numbers are the integers that JavaScript prints in plain decimal
  notation (no NaN, infinities or fractions), so that \<open>===\<close> and the SameValueZero comparison
  of \<open>Map\<close> both coincide with equality of values; symbols and functions do not occur; a
  compound value stands for its content (two key values that are objects are the same object
  exactly when they are equal here).
\<close>

datatype jsval =
    JUndefined
  | JNull
  | JBool bool
  | JNum int
  | JStr string
  | JArr "jsval list"
  | JObj "(string \<times> jsval) list"

type_synonym jsobject = "(string \<times> jsval) list"

datatype error = TypeError

text \<open>\<open>type Cardinality = "one" | "many"\<close>; the same two literals are the \<open>mode\<close> of
  \<open>joinBySelectors\<close>.\<close>

datatype Cardinality = One | Many

subsection \<open>\<open>String(v)\<close> and property keys\<close>

function showNat :: "nat \<Rightarrow> string" where
  "showNat n = (if n < 10 then [''0123456789'' ! n]
                else showNat (n div 10) @ [''0123456789'' ! (n mod 10)])"
  by pat_completeness auto
termination
  by (relation "measure id") auto

declare showNat.simps [simp del]

definition showInt :: "int \<Rightarrow> string" where
  "showInt i = (if i < 0 then CHR ''-'' # showNat (nat (- i)) else showNat (nat i))"

text \<open>\<open>Array.prototype.join\<close> on an array of strings.\<close>

fun joinStrings :: "string \<Rightarrow> string list \<Rightarrow> string" where
  "joinStrings sep [] = []"
| "joinStrings sep [s] = s"
| "joinStrings sep (s # t # rest) = s @ sep @ joinStrings sep (t # rest)"

text \<open>\<open>String(v)\<close>, which is also the property key that \<open>obj[v]\<close> and \<open>v in obj\<close> use.
  An array prints its elements separated by commas, \<open>null\<close> and \<open>undefined\<close> elements as
  nothing; a plain object prints as \<open>[object Object]\<close>.\<close>

fun toStr :: "jsval \<Rightarrow> string" where
  "toStr JUndefined = ''undefined''"
| "toStr JNull = ''null''"
| "toStr (JBool b) = (if b then ''true'' else ''false'')"
| "toStr (JNum n) = showInt n"
| "toStr (JStr s) = s"
| "toStr (JArr xs) =
     joinStrings '',''
       (map (\<lambda>x. if x = JUndefined \<or> x = JNull then [] else toStr x) xs)"
| "toStr (JObj fs) = ''[object Object]''"

text \<open>\<open>item[key]\<close> for a field name \<open>key\<close> of the record type: the own property, or
  \<open>undefined\<close> when the record does not have it.\<close>

definition getField :: "jsobject \<Rightarrow> string \<Rightarrow> jsval" where
  "getField item key = (case map_of item key of Some v \<Rightarrow> v | None \<Rightarrow> JUndefined)"

subsection \<open>Own property order of an object\<close>

text \<open>
  JavaScript enumerates the own properties of an object (\<open>Object.keys\<close>, \<open>Object.entries\<close>,
  spread) with the array indices first, in ascending numeric order, and then the other string
  keys in the order they were created. An array index is the canonical decimal form of an
  integer from 0 to \<open>2\<^sup>3\<^sup>2 - 2\<close>.
\<close>

definition isDigit :: "char \<Rightarrow> bool" where
  "isDigit c = (c \<in> set ''0123456789'')"

definition parseDecimal :: "string \<Rightarrow> int" where
  "parseDecimal s = foldl (\<lambda>acc c. 10 * acc + (of_char c - 48)) 0 s"

definition arrayIndex :: "string \<Rightarrow> int option" where
  "arrayIndex s =
     (if s \<noteq> [] \<and> list_all isDigit s \<and> (s = ''0'' \<or> hd s \<noteq> CHR ''0'')
         \<and> parseDecimal s < 4294967295
      then Some (parseDecimal s) else None)"

fun insertIndexed :: "int \<Rightarrow> string \<Rightarrow> 'v \<Rightarrow> (string \<times> 'v) list \<Rightarrow> (string \<times> 'v) list" where
  "insertIndexed n k v [] = [(k, v)]"
| "insertIndexed n k v ((k', v') # rest) =
     (case arrayIndex k' of
        Some m \<Rightarrow> if m < n then (k', v') # insertIndexed n k v rest
                  else (k, v) # (k', v') # rest
      | None \<Rightarrow> (k, v) # (k', v') # rest)"

text \<open>\<open>obj[k] = v\<close> on an ordinary object: an existing property keeps its place, a new one
  goes where the enumeration order puts it.\<close>

definition objSet :: "string \<Rightarrow> 'v \<Rightarrow> (string \<times> 'v) list \<Rightarrow> (string \<times> 'v) list" where
  "objSet k v obj =
     (if map_of obj k \<noteq> None then AList.update k v obj
      else case arrayIndex k of
             Some n \<Rightarrow> insertIndexed n k v obj
           | None \<Rightarrow> obj @ [(k, v)])"

text \<open>The names every plain object inherits from \<open>Object.prototype\<close>. Reading \<open>result[k]\<close>
  on a fresh \<open>{}\<close> finds a function (or, for \<open>__proto__\<close>, the prototype object) under each
  of them.\<close>

definition objectPrototypeKeys :: "string list" where
  "objectPrototypeKeys =
     [''constructor'', ''__defineGetter__'', ''__defineSetter__'', ''hasOwnProperty'',
      ''__lookupGetter__'', ''__lookupSetter__'', ''isPrototypeOf'',
      ''propertyIsEnumerable'', ''toString'', ''valueOf'', ''__proto__'',
      ''toLocaleString'']"

section \<open>Flat joins on a \<open>Map\<close> index\<close>

text \<open>
  \<open>attachChildren\<close>, \<open>attachChildrenComposite\<close>, \<open>joinBySelectors\<close> (mode many) and
  \<open>attachChildrenWithFilter\<close> each run the same loop over the children:
  \<^verbatim>\<open>
    const existing = childrenByKey.get(key);
    if (existing) { existing.push(child); } else { childrenByKey.set(key, [child]); }
  \<close>
  The \<open>Map\<close> is a partial function from keys to arrays of children.
\<close>

fun indexMany :: "('c \<Rightarrow> 'k) \<Rightarrow> 'c list \<Rightarrow> ('k \<rightharpoonup> 'c list) \<Rightarrow> ('k \<rightharpoonup> 'c list)" where
  "indexMany keyOf [] childrenByKey = childrenByKey"
| "indexMany keyOf (child # rest) childrenByKey =
     indexMany keyOf rest
       (case childrenByKey (keyOf child) of
          Some existing \<Rightarrow> childrenByKey(keyOf child \<mapsto> existing @ [child])
        | None \<Rightarrow> childrenByKey(keyOf child \<mapsto> [child]))"

text \<open>The one-to-one loop: \<open>if (!childByKey.has(key)) childByKey.set(key, child)\<close>.\<close>

fun indexFirst :: "('c \<Rightarrow> 'k) \<Rightarrow> 'c list \<Rightarrow> ('k \<rightharpoonup> 'c) \<Rightarrow> ('k \<rightharpoonup> 'c)" where
  "indexFirst keyOf [] childByKey = childByKey"
| "indexFirst keyOf (child # rest) childByKey =
     indexFirst keyOf rest
       (if childByKey (keyOf child) = None then childByKey(keyOf child \<mapsto> child)
        else childByKey)"

text \<open>\<open>childrenByKey.get(k) ?? []\<close> and \<open>childByKey.get(k) ?? null\<close>, as the values that are
  attached.\<close>

definition getOrEmpty :: "('k \<rightharpoonup> jsobject list) \<Rightarrow> 'k \<Rightarrow> jsobject list" where
  "getOrEmpty childrenByKey k = (case childrenByKey k of Some xs \<Rightarrow> xs | None \<Rightarrow> [])"

definition getOrNull :: "('k \<rightharpoonup> jsobject) \<Rightarrow> 'k \<Rightarrow> jsval" where
  "getOrNull childByKey k = (case childByKey k of Some c \<Rightarrow> JObj c | None \<Rightarrow> JNull)"

text \<open>\<open>{ ...parent, [as]: value }\<close>.\<close>

definition withProperty :: "jsobject \<Rightarrow> string \<Rightarrow> jsval \<Rightarrow> jsobject" where
  "withProperty parent as v = objSet as v parent"

definition attachChildren ::
  "jsobject list \<Rightarrow> jsobject list \<Rightarrow> string \<Rightarrow> string \<Rightarrow> string \<Rightarrow> jsobject list" where
  "attachChildren parents children parentKey childKey as =
     (let childrenByKey = indexMany (\<lambda>child. getField child childKey) children Map.empty
      in map (\<lambda>parent.
                let parentKeyValue = getField parent parentKey;
                    matchingChildren = getOrEmpty childrenByKey parentKeyValue
                in withProperty parent as (JArr (map JObj matchingChildren)))
             parents)"

definition attachChild ::
  "jsobject list \<Rightarrow> jsobject list \<Rightarrow> string \<Rightarrow> string \<Rightarrow> string \<Rightarrow> jsobject list" where
  "attachChild parents children parentKey childKey as =
     (let childByKey = indexFirst (\<lambda>child. getField child childKey) children Map.empty
      in map (\<lambda>parent.
                let parentKeyValue = getField parent parentKey;
                    matchingChild = getOrNull childByKey parentKeyValue
                in withProperty parent as matchingChild)
             parents)"

definition joinBySelectors ::
  "jsobject list \<Rightarrow> jsobject list \<Rightarrow> (jsobject \<Rightarrow> jsval) \<Rightarrow> (jsobject \<Rightarrow> jsval) \<Rightarrow> string
     \<Rightarrow> Cardinality \<Rightarrow> jsobject list" where
  "joinBySelectors parents children parentSelector childSelector as mode =
     (if mode = Many then
        (let childrenByKey = indexMany childSelector children Map.empty
         in map (\<lambda>parent.
                   let key = parentSelector parent;
                       matchingChildren = getOrEmpty childrenByKey key
                   in withProperty parent as (JArr (map JObj matchingChildren)))
                parents)
      else
        (let childByKey = indexFirst childSelector children Map.empty
         in map (\<lambda>parent.
                   let key = parentSelector parent;
                       matchingChild = getOrNull childByKey key
                   in withProperty parent as matchingChild)
                parents))"

section \<open>Composite keys, serialized\<close>

text \<open>\<open>values.map((v) => String(v ?? "")).join("||~~||")\<close>.\<close>

definition createCompositeKey :: "jsval list \<Rightarrow> string" where
  "createCompositeKey values =
     joinStrings ''||~~||''
       (map (\<lambda>v. toStr (if v = JNull \<or> v = JUndefined then JStr [] else v)) values)"

definition makeCompositeKeyExtractor :: "string list \<Rightarrow> jsobject \<Rightarrow> string" where
  "makeCompositeKeyExtractor keys item =
     (let values = map (\<lambda>key. getField item key) keys in createCompositeKey values)"

definition attachChildrenComposite ::
  "jsobject list \<Rightarrow> jsobject list \<Rightarrow> string list \<Rightarrow> string list \<Rightarrow> string \<Rightarrow> jsobject list"
  where
  "attachChildrenComposite parents children parentKeys childKeys as =
     (let parentKeyExtractor = makeCompositeKeyExtractor parentKeys;
          childKeyExtractor = makeCompositeKeyExtractor childKeys;
          childrenByKey = indexMany childKeyExtractor children Map.empty
      in map (\<lambda>parent.
                let parentKey = parentKeyExtractor parent;
                    matchingChildren = getOrEmpty childrenByKey parentKey
                in withProperty parent as (JArr (map JObj matchingChildren)))
             parents)"

definition attachChildComposite ::
  "jsobject list \<Rightarrow> jsobject list \<Rightarrow> string list \<Rightarrow> string list \<Rightarrow> string \<Rightarrow> jsobject list"
  where
  "attachChildComposite parents children parentKeys childKeys as =
     (let parentKeyExtractor = makeCompositeKeyExtractor parentKeys;
          childKeyExtractor = makeCompositeKeyExtractor childKeys;
          childByKey = indexFirst childKeyExtractor children Map.empty
      in map (\<lambda>parent.
                let parentKey = parentKeyExtractor parent;
                    matchingChild = getOrNull childByKey parentKey
                in withProperty parent as matchingChild)
             parents)"

section \<open>Grouping into a plain object\<close>

text \<open>
  \<open>groupBy\<close>, \<open>groupByKey\<close> and both branches of \<open>createNestedGroups\<close> run this loop body
  on a result that starts as \<open>{}\<close>:
  \<^verbatim>\<open>
    if (!result[groupKey]) { result[groupKey] = []; }
    result[groupKey].push(item);
  \<close>
  An own entry is an array, which is truthy, and the item is pushed onto it. Without an own
  entry, \<open>result[groupKey]\<close> is \<open>undefined\<close> and a new array is stored, unless the key is a
  name inherited from \<open>Object.prototype\<close>: then the read finds the inherited member, nothing
  is stored, and \<open>.push\<close> of that member is not a function, which throws a \<open>TypeError\<close>.
\<close>

type_synonym groups = "(string \<times> jsobject list) list"

definition pushToGroup :: "string \<Rightarrow> jsobject \<Rightarrow> groups \<Rightarrow> error + groups" where
  "pushToGroup groupKey item result =
     (case map_of result groupKey of
        Some existing \<Rightarrow> Inr (objSet groupKey (existing @ [item]) result)
      | None \<Rightarrow>
          if groupKey \<in> set objectPrototypeKeys then Inl TypeError
          else Inr (objSet groupKey [item] result))"

fun groupInto :: "(jsobject \<Rightarrow> string) \<Rightarrow> jsobject list \<Rightarrow> groups \<Rightarrow> error + groups" where
  "groupInto keyOf [] result = Inr result"
| "groupInto keyOf (item # rest) result =
     (case pushToGroup (keyOf item) item result of
        Inl e \<Rightarrow> Inl e
      | Inr result' \<Rightarrow> groupInto keyOf rest result')"

definition groupBy :: "jsobject list \<Rightarrow> (jsobject \<Rightarrow> jsval) \<Rightarrow> error + groups" where
  "groupBy items keySelector = groupInto (\<lambda>item. toStr (keySelector item)) items []"

definition groupByKey :: "jsobject list \<Rightarrow> string \<Rightarrow> error + groups" where
  "groupByKey items key = groupInto (\<lambda>item. toStr (getField item key)) items []"

text \<open>A record of groups as a JavaScript value: an object whose values are arrays of records.\<close>

definition groupsObject :: "groups \<Rightarrow> jsval" where
  "groupsObject result = JObj (map (\<lambda>(groupKey, groupItems). (groupKey, JArr (map JObj groupItems))) result)"

text \<open>\<open>for (const [groupKey, groupItems] of Object.entries(firstLevelGroups))
  result[groupKey] = sub(groupItems)\<close>: the entries are visited in order and the first
  recursive call that throws ends the loop.\<close>

fun assignEntries :: "(string \<times> (error + jsval)) list \<Rightarrow> jsobject \<Rightarrow> error + jsobject" where
  "assignEntries [] result = Inr result"
| "assignEntries ((groupKey, sub) # rest) result =
     (case sub of
        Inl e \<Rightarrow> Inl e
      | Inr tree \<Rightarrow> assignEntries rest (objSet groupKey tree result))"

fun groupByMany :: "jsobject list \<Rightarrow> string list \<Rightarrow> error + jsval" where
  "groupByMany items [] = Inr (JArr (map JObj items))"
| "groupByMany items [key] = map_sum id groupsObject (groupByKey items key)"
| "groupByMany items (firstKey # nextKey # restKeys) =
     (case groupByKey items firstKey of
        Inl e \<Rightarrow> Inl e
      | Inr firstLevelGroups \<Rightarrow>
          map_sum id JObj
            (assignEntries
               (map (\<lambda>(groupKey, groupItems).
                       (groupKey, groupByMany groupItems (nextKey # restKeys)))
                    firstLevelGroups)
               []))"

section \<open>The nested index\<close>

fun createNestedGroups :: "jsobject list \<Rightarrow> string list \<Rightarrow> error + jsval" where
  "createNestedGroups items [] = Inr (JArr (map JObj items))"
| "createNestedGroups items [key] =
     (case groupInto (\<lambda>item. toStr (getField item key)) items [] of
        Inl e \<Rightarrow> Inl e
      | Inr result \<Rightarrow> Inr (groupsObject result))"
| "createNestedGroups items (firstKey # nextKey # restKeys) =
     (case groupInto (\<lambda>item. toStr (getField item firstKey)) items [] of
        Inl e \<Rightarrow> Inl e
      | Inr firstLevelGroups \<Rightarrow>
          map_sum id JObj
            (assignEntries
               (map (\<lambda>(groupKey, groupItems).
                       (groupKey, createNestedGroups groupItems (nextKey # restKeys)))
                    firstLevelGroups)
               []))"

text \<open>\<open>current && typeof current === "object"\<close>: arrays and objects pass; \<open>null\<close> is
  falsy, and the other primitives have another \<open>typeof\<close>.\<close>

fun isObject :: "jsval \<Rightarrow> bool" where
  "isObject (JArr xs) = True"
| "isObject (JObj fs) = True"
| "isObject v = False"

text \<open>
  The own properties of such a value: the entries of an object; the elements and the
  \<open>length\<close> of an array.

  \<open>safeKey in current\<close> also holds for a name that \<open>current\<close> inherits. The member found
  there is a built-in function or prototype object; from it the walk only reaches further
  built-ins, and its last test \<open>Array.isArray\<close> fails on all of them but the empty
  \<open>Array.prototype\<close>. So an inherited name gives the empty sequence, as a missing name does,
  and the model looks at own properties only.
\<close>

fun ownProperty :: "jsval \<Rightarrow> string \<Rightarrow> jsval option" where
  "ownProperty (JObj fs) k = map_of fs k"
| "ownProperty (JArr xs) k =
     (if k = ''length'' then Some (JNum (int (length xs)))
      else case arrayIndex k of
             Some i \<Rightarrow> if i < int (length xs) then Some (xs ! nat i) else None
           | None \<Rightarrow> None)"
| "ownProperty v k = None"

text \<open>\<open>Array.isArray(x) ? x : []\<close>.\<close>

definition arrayOrEmpty :: "jsval \<Rightarrow> jsval list" where
  "arrayOrEmpty x = (case x of JArr xs \<Rightarrow> xs | _ \<Rightarrow> [])"

text \<open>The \<open>for (const key of path)\<close> loop of \<open>getFromNestedGroups\<close> and the return after it.\<close>

fun walkGroups :: "jsval \<Rightarrow> jsval list \<Rightarrow> jsval list" where
  "walkGroups current [] = arrayOrEmpty current"
| "walkGroups current (key # rest) =
     (if isObject current \<and> key \<noteq> JNull \<and> key \<noteq> JUndefined
         \<and> ownProperty current (toStr key) \<noteq> None
      then walkGroups (the (ownProperty current (toStr key))) rest
      else [])"

definition getFromNestedGroups :: "jsval \<Rightarrow> jsval list \<Rightarrow> jsval list" where
  "getFromNestedGroups nestedGroups path =
     (if length path = 0 then arrayOrEmpty nestedGroups else walkGroups nestedGroups path)"

definition attachChildrenNested ::
  "jsobject list \<Rightarrow> jsobject list \<Rightarrow> string list \<Rightarrow> string list \<Rightarrow> string
     \<Rightarrow> error + jsobject list" where
  "attachChildrenNested parents children parentKeys childKeys as =
     (case createNestedGroups children childKeys of
        Inl e \<Rightarrow> Inl e
      | Inr nestedGroups \<Rightarrow>
          Inr (map (\<lambda>parent.
                      let path = map (\<lambda>key. getField parent key) parentKeys;
                          matchingChildren = getFromNestedGroups nestedGroups path
                      in withProperty parent as (JArr matchingChildren))
                   parents))"

definition attachChildNested ::
  "jsobject list \<Rightarrow> jsobject list \<Rightarrow> string list \<Rightarrow> string list \<Rightarrow> string
     \<Rightarrow> error + jsobject list" where
  "attachChildNested parents children parentKeys childKeys as =
     (case createNestedGroups children childKeys of
        Inl e \<Rightarrow> Inl e
      | Inr nestedGroups \<Rightarrow>
          Inr (map (\<lambda>parent.
                      let path = map (\<lambda>key. getField parent key) parentKeys;
                          matchingChildren = getFromNestedGroups nestedGroups path;
                          matchingChild =
                            (if length matchingChildren > 0 then matchingChildren ! 0 else JNull)
                      in withProperty parent as matchingChild)
                   parents))"

section \<open>The three-level filtered join\<close>

text \<open>\<open>middleCardinality\<close> and \<open>childCardinality\<close> are optional and default to \<open>"many"\<close>;
  \<open>xs[0] ?? undefined\<close> is the first element or \<open>undefined\<close>.\<close>

definition firstOrUndefined :: "jsval list \<Rightarrow> jsval" where
  "firstOrUndefined xs = (case xs of [] \<Rightarrow> JUndefined | x # _ \<Rightarrow> x)"

definition attachChildrenWithFilter ::
  "jsobject list \<Rightarrow> jsobject list \<Rightarrow> jsobject list \<Rightarrow> string \<Rightarrow> string \<Rightarrow> string \<Rightarrow> string
     \<Rightarrow> string \<Rightarrow> string \<Rightarrow> Cardinality option \<Rightarrow> Cardinality option \<Rightarrow> jsobject list" where
  "attachChildrenWithFilter parents middle children parentKey childParentKey middleKey childKey
       middleAs childAs middleCardinalityOpt childCardinalityOpt =
     (let middleCardinality = (case middleCardinalityOpt of None \<Rightarrow> Many | Some c \<Rightarrow> c);
          childCardinality = (case childCardinalityOpt of None \<Rightarrow> Many | Some c \<Rightarrow> c);
          childrenByMiddleKey = indexMany (\<lambda>child. getField child childKey) children Map.empty
      in map (\<lambda>parent.
                let parentKeyValue = getField parent parentKey;
                    middleWithChildren =
                      map (\<lambda>mid.
                             let midKeyValue = getField mid middleKey;
                                 allChildrenForMiddle = getOrEmpty childrenByMiddleKey midKeyValue;
                                 matchingChildren =
                                   filter (\<lambda>child. getField child childParentKey = parentKeyValue)
                                     allChildrenForMiddle;
                                 childValue =
                                   (if childCardinality = One
                                    then firstOrUndefined (map JObj matchingChildren)
                                    else JArr (map JObj matchingChildren))
                             in JObj (withProperty mid childAs childValue))
                          middle;
                    middleValue =
                      (if middleCardinality = One then firstOrUndefined middleWithChildren
                       else JArr middleWithChildren)
                in withProperty parent middleAs middleValue)
             parents)"

section \<open>Notions of the specification\<close>

text \<open>"The first element of the sequence, or the absence marker when that sequence is
  empty", for the one-to-one joins whose marker is \<open>null\<close>.\<close>

definition firstOrNull :: "jsval \<Rightarrow> jsval" where
  "firstOrNull v = (case v of JArr (x # rest) \<Rightarrow> x | _ \<Rightarrow> JNull)"

text \<open>The children a middle record shows for a parent: those linked to the middle record by
  \<open>childKey\<close> and owned by the parent through \<open>childParentKey\<close>, in input order.\<close>

definition ownedChildren ::
  "jsobject list \<Rightarrow> string \<Rightarrow> string \<Rightarrow> jsval \<Rightarrow> jsval \<Rightarrow> jsobject list" where
  "ownedChildren children childKey childParentKey midKeyValue parentKeyValue =
     filter (\<lambda>child. getField child childKey = midKeyValue
                    \<and> getField child childParentKey = parentKeyValue) children"

text \<open>Cardinality resolution: \<open>"many"\<close> (the default) is the sequence as it is, \<open>"one"\<close> its
  first element or \<open>undefined\<close>.\<close>

definition resolveCardinality :: "Cardinality option \<Rightarrow> jsval list \<Rightarrow> jsval" where
  "resolveCardinality cardinality xs =
     (case cardinality of
        Some One \<Rightarrow> (case xs of [] \<Rightarrow> JUndefined | x # rest \<Rightarrow> x)
      | _ \<Rightarrow> JArr xs)"

text \<open>First-seen order: the keys in the order in which each one first occurs.\<close>

fun firstSeen :: "'a list \<Rightarrow> 'a list" where
  "firstSeen [] = []"
| "firstSeen (x # xs) = x # filter (\<lambda>y. y \<noteq> x) (firstSeen xs)"


text \<open>Navigating a grouping tree level by level along a path of values: at each level the
  entry of the value's key, and at the end the sequence found there; the empty sequence when a
  level has no such entry.\<close>

fun navigateGroups :: "jsval \<Rightarrow> jsval list \<Rightarrow> jsval list" where
  "navigateGroups tree [] = arrayOrEmpty tree"
| "navigateGroups tree (v # rest) =
     (case tree of
        JObj entries \<Rightarrow>
          (case map_of entries (toStr v) of
             Some sub \<Rightarrow> navigateGroups sub rest
           | None \<Rightarrow> [])
      | _ \<Rightarrow> [])"

text \<open>The enumeration order of an object's keys: the array indices first, in ascending
  numeric order, and after them the other keys.\<close>

fun indexKeysFirst :: "string list \<Rightarrow> bool" where
  "indexKeysFirst [] = True"
| "indexKeysFirst [k] = True"
| "indexKeysFirst (k # k' # ks) =
     ((case arrayIndex k of
         Some m \<Rightarrow> (case arrayIndex k' of Some n \<Rightarrow> m \<le> n | None \<Rightarrow> True)
       | None \<Rightarrow> arrayIndex k' = None)
      \<and> indexKeysFirst (k' # ks))"

section \<open>Property writes\<close>

lemma map_of_insertIndexed:
  "map_of obj k = None \<Longrightarrow> map_of (insertIndexed n k v obj) = (map_of obj)(k \<mapsto> v)"
proof (induction obj)
  case Nil
  then show ?case by simp
next
  case (Cons e obj)
  obtain k' v' where e: "e = (k', v')" by (cases e)
  from Cons.prems e have ne: "k' \<noteq> k" and rest: "map_of obj k = None"
    by (auto split: if_splits)
  show ?case
    using Cons.IH [OF rest] ne e
    by (auto simp: fun_eq_iff split: option.splits)
qed

lemma map_of_objSet: "map_of (objSet k v obj) = (map_of obj)(k \<mapsto> v)"
  by (auto simp: objSet_def update_conv' map_of_insertIndexed fun_eq_iff map_add_def
      split: option.splits)

lemma keys_insertIndexed: "fst ` set (insertIndexed n k v obj) = insert k (fst ` set obj)"
proof (induction obj)
  case Nil
  then show ?case by simp
next
  case (Cons e obj)
  obtain k' v' where e: "e = (k', v')" by (cases e)
  show ?case
    unfolding e using Cons.IH
    by (cases "arrayIndex k'") (simp_all add: insert_commute)
qed

lemma distinct_insertIndexed:
  "k \<notin> set (map fst obj) \<Longrightarrow> distinct (map fst obj)
     \<Longrightarrow> distinct (map fst (insertIndexed n k v obj))"
proof (induction obj)
  case Nil
  then show ?case by simp
next
  case (Cons e obj)
  then show ?case
    using keys_insertIndexed [of n k v obj]
    by (cases e) (auto split: option.splits simp: image_iff)
qed

lemma distinct_objSet:
  "distinct (map fst obj) \<Longrightarrow> distinct (map fst (objSet k v obj))"
  by (auto simp: objSet_def distinct_update distinct_insertIndexed map_of_eq_None_iff
      split: option.splits)



lemma old_field_objSet:
  assumes "map_of obj k \<noteq> None"
  shows "map fst (objSet k v obj) = map fst obj"
  using assms by (auto simp: objSet_def update_keys map_of_eq_None_iff)

lemma getField_withProperty: "getField (withProperty p as v) as = v"
  by (simp add: getField_def withProperty_def map_of_objSet)

lemma map_of_withProperty: "map_of (withProperty p as v) = (map_of p)(as \<mapsto> v)"
  by (simp add: withProperty_def map_of_objSet)

lemma keys_objSet_plain:
  "arrayIndex k = None \<Longrightarrow>
     map fst (objSet k v obj) = (if k \<in> set (map fst obj) then map fst obj else map fst obj @ [k])"
  by (auto simp: objSet_def update_keys map_of_eq_None_iff split: option.splits)

lemma indexKeysFirst_snoc:
  "indexKeysFirst ks \<Longrightarrow> arrayIndex k = None \<Longrightarrow> indexKeysFirst (ks @ [k])"
  by (induction ks rule: indexKeysFirst.induct) (auto split: option.splits)

lemma indexKeysFirst_tail: "indexKeysFirst (k # ks) \<Longrightarrow> indexKeysFirst ks"
  by (cases ks) auto

lemma indexKeysFirst_insertIndexed:
  "indexKeysFirst (map fst obj) \<Longrightarrow> arrayIndex k = Some n
     \<Longrightarrow> indexKeysFirst (map fst (insertIndexed n k v obj))"
proof (induction obj)
  case Nil
  then show ?case by simp
next
  case (Cons e obj)
  obtain k' v' where e: "e = (k', v')" by (cases e)
  have tail: "indexKeysFirst (map fst obj)"
    using Cons.prems(1) indexKeysFirst_tail by (simp add: e)
  show ?case
  proof (cases "arrayIndex k'")
    case None
    then show ?thesis using Cons.prems by (simp add: e)
  next
    case (Some m)
    show ?thesis
    proof (cases "m < n")
      case False
      then show ?thesis using Cons.prems Some by (simp add: e)
    next
      case True
      have ih: "indexKeysFirst (map fst (insertIndexed n k v obj))"
        using Cons.IH [OF tail Cons.prems(2)] .
      show ?thesis
      proof (cases obj)
        case Nil
        then show ?thesis using True Some Cons.prems(2) by (simp add: e)
      next
        case (Cons e2 obj2)
        obtain k2 v2 where e2: "e2 = (k2, v2)" by (cases e2)
        show ?thesis
          using ih True Some Cons.prems e e2 Cons
          by (auto split: option.splits if_splits)
      qed
    qed
  qed
qed

lemma indexKeysFirst_objSet:
  "indexKeysFirst (map fst obj) \<Longrightarrow> indexKeysFirst (map fst (objSet k v obj))"
proof (cases "map_of obj k")
  case None
  assume a: "indexKeysFirst (map fst obj)"
  show ?thesis
  proof (cases "arrayIndex k")
    case n: None
    then show ?thesis using None a by (simp add: objSet_def indexKeysFirst_snoc)
  next
    case (Some n)
    then show ?thesis using None a by (simp add: objSet_def indexKeysFirst_insertIndexed)
  qed
next
  case (Some x)
  assume "indexKeysFirst (map fst obj)"
  then show ?thesis using Some by (simp add: old_field_objSet)
qed

lemma plain_keys_insertIndexed:
  "arrayIndex k = Some n \<Longrightarrow>
     filter (\<lambda>x. arrayIndex x = None) (map fst (insertIndexed n k v obj))
       = filter (\<lambda>x. arrayIndex x = None) (map fst obj)"
  by (induction obj) (auto split: option.splits)

lemma plain_keys_objSet:
  "filter (\<lambda>x. arrayIndex x = None) (map fst (objSet k v obj))
     = (if k \<in> set (map fst obj) \<or> arrayIndex k \<noteq> None
        then filter (\<lambda>x. arrayIndex x = None) (map fst obj)
        else filter (\<lambda>x. arrayIndex x = None) (map fst obj) @ [k])"
proof (cases "map_of obj k")
  case None
  then have notin: "k \<notin> set (map fst obj)" by (simp add: map_of_eq_None_iff)
  show ?thesis
  proof (cases "arrayIndex k")
    case n: None
    then show ?thesis using None notin by (simp add: objSet_def)
  next
    case (Some n)
    then show ?thesis using None notin by (simp add: objSet_def plain_keys_insertIndexed)
  qed
next
  case (Some x)
  then have "k \<in> set (map fst obj)"
    by (metis map_of_eq_None_iff option.distinct(1) set_map)
  then show ?thesis using Some by (simp add: old_field_objSet)
qed

section \<open>What the \<open>Map\<close> indexes hold\<close>

lemma indexMany_apply:
  "indexMany keyOf cs m k =
     (if filter (\<lambda>c. keyOf c = k) cs = [] then m k
      else Some ((case m k of Some xs \<Rightarrow> xs | None \<Rightarrow> []) @ filter (\<lambda>c. keyOf c = k) cs))"
  by (induction cs arbitrary: m) (auto split: option.splits)

lemma getOrEmpty_indexMany:
  "getOrEmpty (indexMany keyOf cs Map.empty) k = filter (\<lambda>c. keyOf c = k) cs"
  by (simp add: getOrEmpty_def indexMany_apply)

lemma filter_getOrEmpty_indexMany:
  "filter P (getOrEmpty (indexMany keyOf cs Map.empty) k) = filter (\<lambda>c. keyOf c = k \<and> P c) cs"
  by (simp add: getOrEmpty_indexMany conj_commute)

lemma indexFirst_apply:
  "indexFirst keyOf cs m k =
     (case m k of Some c \<Rightarrow> Some c | None \<Rightarrow> find (\<lambda>c. keyOf c = k) cs)"
  by (induction cs arbitrary: m) (auto split: option.splits)

lemma getOrNull_indexFirst:
  "getOrNull (indexFirst keyOf cs Map.empty) k =
     (case find (\<lambda>c. keyOf c = k) cs of Some c \<Rightarrow> JObj c | None \<Rightarrow> JNull)"
  by (simp add: getOrNull_def indexFirst_apply)

lemma find_as_filter:
  "find P xs = (case filter P xs of [] \<Rightarrow> None | x # _ \<Rightarrow> Some x)"
  by (induction xs) auto

lemma firstOrNull_filter:
  "(case find P cs of Some c \<Rightarrow> JObj c | None \<Rightarrow> JNull)
     = firstOrNull (JArr (map JObj (filter P cs)))"
  by (simp add: firstOrNull_def find_as_filter split: list.splits)

section \<open>The joins on a \<open>Map\<close> index, in closed form\<close>

lemma attachChildren_eq:
  "attachChildren parents children parentKey childKey as
     = map (\<lambda>parent. withProperty parent as
              (JArr (map JObj (filter (\<lambda>c. getField c childKey = getField parent parentKey)
                                children)))) parents"
  by (simp add: attachChildren_def Let_def getOrEmpty_indexMany)

lemma attachChild_eq:
  "attachChild parents children parentKey childKey as
     = map (\<lambda>parent. withProperty parent as
              (case find (\<lambda>c. getField c childKey = getField parent parentKey) children of
                 Some c \<Rightarrow> JObj c | None \<Rightarrow> JNull)) parents"
  by (simp add: attachChild_def Let_def getOrNull_indexFirst)

lemma joinBySelectors_eq:
  "joinBySelectors parents children parentSelector childSelector as Many
     = map (\<lambda>parent. withProperty parent as
              (JArr (map JObj (filter (\<lambda>c. childSelector c = parentSelector parent)
                                children)))) parents"
  "joinBySelectors parents children parentSelector childSelector as One
     = map (\<lambda>parent. withProperty parent as
              (case find (\<lambda>c. childSelector c = parentSelector parent) children of
                 Some c \<Rightarrow> JObj c | None \<Rightarrow> JNull)) parents"
  by (simp_all add: joinBySelectors_def Let_def getOrEmpty_indexMany getOrNull_indexFirst)

lemma attachChildrenComposite_eq:
  "attachChildrenComposite parents children parentKeys childKeys as
     = map (\<lambda>parent. withProperty parent as
              (JArr (map JObj (filter (\<lambda>c. createCompositeKey (map (getField c) childKeys)
                                  = createCompositeKey (map (getField parent) parentKeys))
                                children)))) parents"
  by (simp add: attachChildrenComposite_def makeCompositeKeyExtractor_def Let_def
      getOrEmpty_indexMany)

lemma attachChildComposite_eq:
  "attachChildComposite parents children parentKeys childKeys as
     = map (\<lambda>parent. withProperty parent as
              (case filter (\<lambda>c. createCompositeKey (map (getField c) childKeys)
                                  = createCompositeKey (map (getField parent) parentKeys))
                         children of
                 [] \<Rightarrow> JNull | c # rest \<Rightarrow> JObj c)) parents"
  by (simp add: attachChildComposite_def makeCompositeKeyExtractor_def Let_def
      getOrNull_indexFirst find_as_filter split: list.splits)

lemma resolve_eq:
  "(if (case co of None \<Rightarrow> Many | Some c \<Rightarrow> c) = One then firstOrUndefined xs else JArr xs)
     = resolveCardinality co xs"
  by (cases co; simp add: resolveCardinality_def firstOrUndefined_def split: Cardinality.splits)

lemma attachChildrenWithFilter_eq:
  "attachChildrenWithFilter parents middle children parentKey childParentKey middleKey childKey
       middleAs childAs middleCardinality childCardinality
   = map (\<lambda>parent.
           withProperty parent middleAs
             (resolveCardinality middleCardinality
                (map (\<lambda>mid.
                        JObj (withProperty mid childAs
                               (resolveCardinality childCardinality
                                  (map JObj
                                     (ownedChildren children childKey childParentKey
                                        (getField mid middleKey) (getField parent parentKey))))))
                     middle)))
        parents"
  unfolding attachChildrenWithFilter_def Let_def resolve_eq filter_getOrEmpty_indexMany
    ownedChildren_def
  by simp

section \<open>Serialized keys\<close>


lemma createCompositeKey_plain:
  "\<forall>v\<in>set vs. v \<noteq> JNull \<and> v \<noteq> JUndefined
     \<Longrightarrow> createCompositeKey vs = joinStrings ''||~~||'' (map toStr vs)"
  by (simp add: createCompositeKey_def cong: map_cong)

lemma append_bar_inject:
  "CHR ''|'' \<notin> set x \<Longrightarrow> CHR ''|'' \<notin> set y \<Longrightarrow> x @ CHR ''|'' # a = y @ CHR ''|'' # b
     \<Longrightarrow> x = y \<and> a = b"
proof (induction x arbitrary: y)
  case Nil
  then show ?case by (cases y) auto
next
  case (Cons c x)
  then show ?case by (cases y) auto
qed

lemma joinStrings_inject:
  "length xs = length ys \<Longrightarrow> \<forall>s\<in>set xs \<union> set ys. CHR ''|'' \<notin> set s
     \<Longrightarrow> joinStrings ''||~~||'' xs = joinStrings ''||~~||'' ys \<Longrightarrow> xs = ys"
proof (induction xs ys rule: list_induct2)
  case Nil
  then show ?case by simp
next
  case (Cons x xs y ys)
  show ?case
  proof (cases xs)
    case Nil
    then have "ys = []" using Cons.hyps by simp
    then show ?thesis using Nil Cons.prems by simp
  next
    case (Cons x2 xs2)
    then obtain y2 ys2 where ys: "ys = y2 # ys2"
      using Cons.hyps by (cases ys) auto
    have "x @ CHR ''|'' # (''|~~||'' @ joinStrings ''||~~||'' xs)
            = y @ CHR ''|'' # (''|~~||'' @ joinStrings ''||~~||'' ys)"
      using Cons.prems(2) Cons ys by simp
    then have "x = y \<and> ''|~~||'' @ joinStrings ''||~~||'' xs = ''|~~||'' @ joinStrings ''||~~||'' ys"
      using Cons.prems(1) by (intro append_bar_inject) auto
    then show ?thesis using Cons.IH Cons.prems(1) by simp
  qed
qed

text \<open>A sufficient condition for two key tuples not to collide under the separator
  \<open>||~~||\<close>: no rendered component holds the character \<open>|\<close>.\<close>

lemma no_collision_without_bar:
  assumes "length parentKeys = length childKeys"
    and "\<forall>k\<in>set parentKeys. getField p k \<noteq> JNull \<and> getField p k \<noteq> JUndefined
            \<and> CHR ''|'' \<notin> set (toStr (getField p k))"
    and "\<forall>k\<in>set childKeys. getField c k \<noteq> JNull \<and> getField c k \<noteq> JUndefined
            \<and> CHR ''|'' \<notin> set (toStr (getField c k))"
    and "createCompositeKey (map (getField c) childKeys)
           = createCompositeKey (map (getField p) parentKeys)"
  shows "map (\<lambda>k. toStr (getField c k)) childKeys = map (\<lambda>k. toStr (getField p k)) parentKeys"
proof -
  have "joinStrings ''||~~||'' (map (\<lambda>k. toStr (getField c k)) childKeys)
          = joinStrings ''||~~||'' (map (\<lambda>k. toStr (getField p k)) parentKeys)"
    using assms(2,3,4) by (simp add: createCompositeKey_plain comp_def)
  then show ?thesis
    using assms(1,2,3) by (intro joinStrings_inject) auto
qed

section \<open>What the grouping loop builds\<close>

lemma pushToGroup_map_of:
  "pushToGroup k item acc = Inr acc' \<Longrightarrow>
     map_of acc' = (map_of acc)(k \<mapsto> (case map_of acc k of Some xs \<Rightarrow> xs | None \<Rightarrow> []) @ [item])"
  by (auto simp: pushToGroup_def map_of_objSet split: option.splits if_splits)

lemma pushToGroup_keys:
  assumes "pushToGroup k item acc = Inr acc'" and "arrayIndex k = None"
  shows "map fst acc' = (if k \<in> set (map fst acc) then map fst acc else map fst acc @ [k])"
proof (cases "map_of acc k")
  case None
  then have "acc' = objSet k [item] acc"
    using assms(1) by (simp add: pushToGroup_def split: if_splits)
  then show ?thesis by (simp add: keys_objSet_plain [OF assms(2)])
next
  case (Some existing)
  then have "acc' = objSet k (existing @ [item]) acc"
    using assms(1) by (simp add: pushToGroup_def)
  then show ?thesis by (simp add: keys_objSet_plain [OF assms(2)])
qed

lemma pushToGroup_distinct:
  "pushToGroup k item acc = Inr acc' \<Longrightarrow> distinct (map fst acc) \<Longrightarrow> distinct (map fst acc')"
  by (auto simp: pushToGroup_def distinct_objSet split: option.splits if_splits)

lemma pushToGroup_succeeds:
  "k \<notin> set objectPrototypeKeys \<Longrightarrow> \<exists>acc'. pushToGroup k item acc = Inr acc'"
  by (auto simp: pushToGroup_def split: option.splits)

lemma pushToGroup_objSet:
  "pushToGroup k item acc = Inr acc' \<Longrightarrow> \<exists>grp. acc' = objSet k grp acc"
  by (auto simp: pushToGroup_def split: option.splits if_splits)

lemma pushToGroup_keys_subset:
  "pushToGroup k item acc = Inr acc' \<Longrightarrow> fst ` set acc' = insert k (fst ` set acc)"
proof -
  assume a: "pushToGroup k item acc = Inr acc'"
  have "dom (map_of acc') = insert k (dom (map_of acc))"
    using pushToGroup_map_of [OF a] by simp
  then show ?thesis by (simp add: dom_map_of_conv_image_fst)
qed

lemma groupInto_map_of:
  "groupInto keyOf items acc = Inr result \<Longrightarrow>
     map_of result k =
       (if filter (\<lambda>i. keyOf i = k) items = [] then map_of acc k
        else Some ((case map_of acc k of Some xs \<Rightarrow> xs | None \<Rightarrow> [])
                     @ filter (\<lambda>i. keyOf i = k) items))"
proof (induction items arbitrary: acc)
  case Nil
  then show ?case by simp
next
  case (Cons item items)
  from Cons.prems obtain acc' where push: "pushToGroup (keyOf item) item acc = Inr acc'"
    and rest: "groupInto keyOf items acc' = Inr result"
    by (auto split: sum.splits)
  show ?case
    using Cons.IH [OF rest] pushToGroup_map_of [OF push]
    by (auto split: option.splits)
qed

lemma groupInto_distinct:
  "groupInto keyOf items acc = Inr result \<Longrightarrow> distinct (map fst acc)
     \<Longrightarrow> distinct (map fst result)"
proof (induction items arbitrary: acc)
  case Nil
  then show ?case by simp
next
  case (Cons item items)
  from Cons.prems obtain acc' where push: "pushToGroup (keyOf item) item acc = Inr acc'"
    and rest: "groupInto keyOf items acc' = Inr result"
    by (auto split: sum.splits)
  show ?case
    using Cons.IH [OF rest] pushToGroup_distinct [OF push] Cons.prems(2) by simp
qed

lemma groupInto_succeeds:
  "\<forall>i\<in>set items. keyOf i \<notin> set objectPrototypeKeys
     \<Longrightarrow> \<exists>result. groupInto keyOf items acc = Inr result"
proof (induction items arbitrary: acc)
  case Nil
  then show ?case by simp
next
  case (Cons item items)
  then obtain acc' where "pushToGroup (keyOf item) item acc = Inr acc'"
    using pushToGroup_succeeds [of "keyOf item" item acc] by auto
  then show ?case using Cons by simp
qed

lemma groupInto_fails:
  "\<forall>k\<in>fst ` set acc. k \<notin> set objectPrototypeKeys
     \<Longrightarrow> \<exists>i\<in>set items. keyOf i \<in> set objectPrototypeKeys
     \<Longrightarrow> groupInto keyOf items acc = Inl TypeError"
proof (induction items arbitrary: acc)
  case Nil
  then show ?case by simp
next
  case (Cons item items)
  show ?case
  proof (cases "keyOf item \<in> set objectPrototypeKeys")
    case True
    then have "map_of acc (keyOf item) = None"
      using Cons.prems(1) by (auto simp: map_of_eq_None_iff)
    then show ?thesis using True by (simp add: pushToGroup_def)
  next
    case False
    then obtain acc' where push: "pushToGroup (keyOf item) item acc = Inr acc'"
      using pushToGroup_succeeds by blast
    have "\<forall>k\<in>fst ` set acc'. k \<notin> set objectPrototypeKeys"
      using pushToGroup_keys_subset [OF push] Cons.prems(1) False by auto
    moreover have "\<exists>i\<in>set items. keyOf i \<in> set objectPrototypeKeys"
      using Cons.prems(2) False by auto
    ultimately show ?thesis
      using Cons.IH push by simp
  qed
qed

lemma groupInto_keys:
  "groupInto keyOf items acc = Inr result \<Longrightarrow> \<forall>i\<in>set items. arrayIndex (keyOf i) = None \<Longrightarrow>
     map fst result
       = map fst acc @ filter (\<lambda>k. k \<notin> set (map fst acc)) (firstSeen (map keyOf items))"
proof (induction items arbitrary: acc)
  case Nil
  then show ?case by simp
next
  case (Cons item items)
  from Cons.prems obtain acc' where push: "pushToGroup (keyOf item) item acc = Inr acc'"
    and rest: "groupInto keyOf items acc' = Inr result"
    by (auto split: sum.splits)
  have plain: "arrayIndex (keyOf item) = None" and plains: "\<forall>i\<in>set items. arrayIndex (keyOf i) = None"
    using Cons.prems(2) by simp_all
  have keys: "map fst acc' = (if keyOf item \<in> set (map fst acc) then map fst acc
                              else map fst acc @ [keyOf item])"
    using pushToGroup_keys [OF push plain] .
  have ih: "map fst result
       = map fst acc' @ filter (\<lambda>k. k \<notin> set (map fst acc')) (firstSeen (map keyOf items))"
    using Cons.IH [OF rest plains] .
  show ?case
  proof (cases "keyOf item \<in> set (map fst acc)")
    case True
    have "filter (\<lambda>k. k \<notin> set (map fst acc)) (filter (\<lambda>y. y \<noteq> keyOf item) xs)
            = filter (\<lambda>k. k \<notin> set (map fst acc)) xs" for xs
      using True by (induction xs) auto
    then show ?thesis using ih keys True by simp
  next
    case False
    have "filter (\<lambda>k. k \<notin> set (map fst acc @ [keyOf item])) xs
            = filter (\<lambda>k. k \<notin> set (map fst acc)) (filter (\<lambda>y. y \<noteq> keyOf item) xs)" for xs
      by (induction xs) auto
    then show ?thesis using ih keys False by simp
  qed
qed

lemma groups_from_empty:
  assumes "groupInto keyOf items [] = Inr g"
  shows "map_of g k = (if filter (\<lambda>i. keyOf i = k) items = [] then None
                       else Some (filter (\<lambda>i. keyOf i = k) items))"
    and "distinct (map fst g)"
    and "(k, grp) \<in> set g \<Longrightarrow> grp = filter (\<lambda>i. keyOf i = k) items"
proof -
  show m: "map_of g k = (if filter (\<lambda>i. keyOf i = k) items = [] then None
                       else Some (filter (\<lambda>i. keyOf i = k) items))" for k
    using groupInto_map_of [OF assms, of k] by simp
  show d: "distinct (map fst g)"
    using groupInto_distinct [OF assms] by simp
  show "grp = filter (\<lambda>i. keyOf i = k) items" if "(k, grp) \<in> set g"
  proof -
    have "map_of g k = Some grp" using that d by simp
    then show ?thesis using m [of k] by (auto split: if_splits)
  qed
qed

lemma firstSeen_filter: "firstSeen (filter P xs) = filter P (firstSeen xs)"
proof (induction xs)
  case Nil
  then show ?case by simp
next
  case (Cons x xs)
  have "filter (\<lambda>y. y \<noteq> x) (filter P ys) = filter P (filter (\<lambda>y. y \<noteq> x) ys)" for ys
    by (induction ys) auto
  moreover have "\<not> P x \<Longrightarrow> filter P (filter (\<lambda>y. y \<noteq> x) ys) = filter P ys" for ys
    by (induction ys) auto
  ultimately show ?case using Cons by simp
qed

lemma groupInto_order:
  "groupInto keyOf items acc = Inr result \<Longrightarrow> indexKeysFirst (map fst acc)
     \<Longrightarrow> indexKeysFirst (map fst result)
       \<and> filter (\<lambda>x. arrayIndex x = None) (map fst result)
           = filter (\<lambda>x. arrayIndex x = None) (map fst acc)
             @ filter (\<lambda>k. arrayIndex k = None \<and> k \<notin> set (map fst acc))
                 (firstSeen (map keyOf items))"
proof (induction items arbitrary: acc)
  case Nil
  then show ?case by simp
next
  case (Cons item items)
  let ?plain = "\<lambda>x. arrayIndex x = None"
  let ?fs = "firstSeen (map keyOf items)"
  from Cons.prems obtain acc' where push: "pushToGroup (keyOf item) item acc = Inr acc'"
    and rest: "groupInto keyOf items acc' = Inr result"
    by (auto split: sum.splits)
  obtain grp where acc': "acc' = objSet (keyOf item) grp acc"
    using pushToGroup_objSet [OF push] by blast
  have ord: "indexKeysFirst (map fst acc')"
    using Cons.prems(2) by (simp add: acc' indexKeysFirst_objSet)
  have set': "set (map fst acc') = insert (keyOf item) (set (map fst acc))"
    using pushToGroup_keys_subset [OF push] by simp
  have ih1: "indexKeysFirst (map fst result)"
    and ih2: "filter ?plain (map fst result)
       = filter ?plain (map fst acc')
         @ filter (\<lambda>k. ?plain k \<and> k \<notin> set (map fst acc')) ?fs"
    using Cons.IH [OF rest ord] by simp_all
  have pk: "filter ?plain (map fst acc')
     = (if keyOf item \<in> set (map fst acc) \<or> arrayIndex (keyOf item) \<noteq> None
        then filter ?plain (map fst acc)
        else filter ?plain (map fst acc) @ [keyOf item])"
    unfolding acc' by (rule plain_keys_objSet)
  have tail: "filter (\<lambda>k. ?plain k \<and> k \<notin> set (map fst acc')) ?fs
      = filter (\<lambda>k. ?plain k \<and> k \<notin> set (map fst acc)) (filter (\<lambda>y. y \<noteq> keyOf item) ?fs)"
    unfolding set' filter_filter by (rule filter_cong) auto
  have goal: "filter ?plain (map fst acc')
         @ filter (\<lambda>k. ?plain k \<and> k \<notin> set (map fst acc')) ?fs
      = filter ?plain (map fst acc)
         @ filter (\<lambda>k. ?plain k \<and> k \<notin> set (map fst acc))
             (keyOf item # filter (\<lambda>y. y \<noteq> keyOf item) ?fs)"
    unfolding tail pk by simp
  show ?case
    using ih1 ih2 goal by simp
qed

lemma groupBy_key_order:
  assumes "groupBy items keySelector = Inr result"
  shows "indexKeysFirst (map fst result)
       \<and> filter (\<lambda>k. arrayIndex k = None) (map fst result)
           = firstSeen (filter (\<lambda>k. arrayIndex k = None)
                          (map (\<lambda>item. toStr (keySelector item)) items))
       \<and> set (map fst result) = (\<lambda>item. toStr (keySelector item)) ` set items"
proof -
  let ?k = "\<lambda>item. toStr (keySelector item)"
  have res: "groupInto ?k items [] = Inr result"
    using assms by (simp add: groupBy_def)
  have "dom (map_of result) = ?k ` set items"
    using groupInto_map_of [OF res] by (auto simp: dom_def filter_empty_conv split: if_splits)
  then have "set (map fst result) = ?k ` set items"
    by (simp add: dom_map_of_conv_image_fst)
  moreover have "filter (\<lambda>k. arrayIndex k = None) (firstSeen (map ?k items))
      = firstSeen (filter (\<lambda>k. arrayIndex k = None) (map ?k items))"
    by (simp only: firstSeen_filter)
  ultimately show ?thesis
    using groupInto_order [OF res] by simp
qed

text \<open>\<open>groupByKey(items, key)\<close> is \<open>groupBy(items, (item) => item[key])\<close>.\<close>

lemma groupByKey_is_groupBy:
  "groupByKey items key = groupBy items (\<lambda>item. getField item key)"
  by (simp add: groupByKey_def groupBy_def)

section \<open>What the nested index holds\<close>

lemma assignEntries_map_of:
  "assignEntries es acc = Inr r \<Longrightarrow> distinct (map fst es) \<Longrightarrow>
     map_of r k = (case map_of es k of
                     Some sub \<Rightarrow> (case sub of Inr t \<Rightarrow> Some t | Inl e \<Rightarrow> None)
                   | None \<Rightarrow> map_of acc k)"
proof (induction es arbitrary: acc)
  case Nil
  then show ?case by simp
next
  case (Cons e es)
  obtain k0 sub0 where e: "e = (k0, sub0)" by (cases e)
  from Cons.prems e obtain t0 where sub0: "sub0 = Inr t0"
    and rest: "assignEntries es (objSet k0 t0 acc) = Inr r"
    by (auto split: sum.splits)
  from Cons.prems(2) e have notin: "map_of es k0 = None" and dist: "distinct (map fst es)"
    by (simp_all add: map_of_eq_None_iff)
  show ?case
    using Cons.IH [OF rest dist] notin e sub0
    by (auto simp: map_of_objSet split: option.splits)
qed


lemma assignEntries_succeeds:
  "\<forall>(k, sub)\<in>set es. \<exists>t. sub = Inr t \<Longrightarrow> \<exists>r. assignEntries es acc = Inr r"
  by (induction es arbitrary: acc) auto

lemma assignEntries_fails:
  "(k, Inl e) \<in> set es \<Longrightarrow> assignEntries es acc = Inl TypeError"
proof (induction es arbitrary: acc)
  case Nil
  then show ?case by simp
next
  case (Cons x es)
  obtain k0 sub0 where x: "x = (k0, sub0)" by (cases x)
  show ?case
  proof (cases sub0)
    case (Inl e0)
    then show ?thesis using x by (cases e0) simp
  next
    case (Inr t0)
    then have "(k, Inl e) \<in> set es" using Cons.prems x by auto
    then show ?thesis using Cons.IH x Inr by simp
  qed
qed

lemma map_of_map_entries:
  "map_of (map (\<lambda>(k, v). (k, f v)) xs) k = map_option f (map_of xs k)"
  by (induction xs) auto


lemma walkGroups_groupsObject:
  "walkGroups (groupsObject g) [v] =
     (if v = JNull \<or> v = JUndefined then []
      else case map_of g (toStr v) of Some grp \<Rightarrow> map JObj grp | None \<Rightarrow> [])"
  by (auto simp: groupsObject_def map_of_map_entries arrayOrEmpty_def split: option.splits)






lemma createNestedGroups_succeeds:
  "\<forall>c\<in>set items. \<forall>k\<in>set keys. toStr (getField c k) \<notin> set objectPrototypeKeys
     \<Longrightarrow> \<exists>tree. createNestedGroups items keys = Inr tree"
proof (induction items keys rule: createNestedGroups.induct)
  case (1 items)
  then show ?case by simp
next
  case (2 items key)
  then obtain g where "groupInto (\<lambda>item. toStr (getField item key)) items [] = Inr g"
    using groupInto_succeeds [of items "\<lambda>item. toStr (getField item key)" "[]"] by auto
  then show ?case by simp
next
  case (3 items firstKey nextKey restKeys)
  let ?rest = "nextKey # restKeys"
  obtain g where g: "groupInto (\<lambda>item. toStr (getField item firstKey)) items [] = Inr g"
    using groupInto_succeeds [of items "\<lambda>item. toStr (getField item firstKey)" "[]"] "3.prems"
    by auto
  have sub: "\<exists>t. createNestedGroups gi ?rest = Inr t" if "(gk, gi) \<in> set g" for gk gi
  proof -
    have "gi = filter (\<lambda>i. toStr (getField i firstKey) = gk) items"
      using groups_from_empty(3) [OF g that] .
    then have "set gi \<subseteq> set items" by auto
    then have "\<forall>c\<in>set gi. \<forall>k\<in>set ?rest. toStr (getField c k) \<notin> set objectPrototypeKeys"
      using "3.prems" by auto
    then show ?thesis using "3.IH" [OF g that refl] by blast
  qed
  have "\<forall>(k, s)\<in>set (map (\<lambda>(groupKey, groupItems).
            (groupKey, createNestedGroups groupItems ?rest)) g). \<exists>t. s = Inr t"
    using sub by auto
  then obtain r where "assignEntries (map (\<lambda>(groupKey, groupItems).
            (groupKey, createNestedGroups groupItems ?rest)) g) [] = Inr r"
    using assignEntries_succeeds by blast
  then show ?case using g by simp
qed

lemma createNestedGroups_fails:
  "\<exists>c\<in>set items. \<exists>k\<in>set keys. toStr (getField c k) \<in> set objectPrototypeKeys
     \<Longrightarrow> createNestedGroups items keys = Inl TypeError"
proof (induction items keys rule: createNestedGroups.induct)
  case (1 items)
  then show ?case by simp
next
  case (2 items key)
  then have "groupInto (\<lambda>item. toStr (getField item key)) items [] = Inl TypeError"
    by (intro groupInto_fails) auto
  then show ?case by simp
next
  case (3 items firstKey nextKey restKeys)
  let ?rest = "nextKey # restKeys"
  let ?k = "\<lambda>item. toStr (getField item firstKey)"
  show ?case
  proof (cases "groupInto ?k items []")
    case (Inl e)
    then show ?thesis by (cases e) simp
  next
    case (Inr g)
    have first_ok: "\<forall>i\<in>set items. ?k i \<notin> set objectPrototypeKeys"
    proof (rule ccontr)
      assume "\<not> ?thesis"
      then have "groupInto ?k items [] = Inl TypeError"
        by (intro groupInto_fails) auto
      then show False using Inr by simp
    qed
    from "3.prems" first_ok obtain c k where c: "c \<in> set items" and k: "k \<in> set ?rest"
      and bad: "toStr (getField c k) \<in> set objectPrototypeKeys"
      by auto
    let ?grp = "filter (\<lambda>i. ?k i = ?k c) items"
    have "?grp \<noteq> []" using c by (auto simp: filter_empty_conv)
    then have "map_of g (?k c) = Some ?grp"
      using groups_from_empty(1) [OF Inr, of "?k c"] by simp
    then have mem: "(?k c, ?grp) \<in> set g" by (rule map_of_SomeD)
    have "c \<in> set ?grp" using c by simp
    then have "createNestedGroups ?grp ?rest = Inl TypeError"
      using "3.IH" [OF Inr mem refl] k bad by blast
    then have "(?k c, Inl TypeError)
                 \<in> set (map (\<lambda>(groupKey, groupItems).
                      (groupKey, createNestedGroups groupItems ?rest)) g)"
      using mem by force
    then have "assignEntries (map (\<lambda>(groupKey, groupItems).
                      (groupKey, createNestedGroups groupItems ?rest)) g) [] = Inl TypeError"
      by (rule assignEntries_fails)
    then show ?thesis using Inr by simp
  qed
qed

text \<open>Building the nested index throws exactly when some record holds, in one of the key
  fields, a value that prints as a name inherited from \<open>Object.prototype\<close>.\<close>

lemma nested_index_throws_iff:
  "(createNestedGroups items keys = Inl TypeError)
     = (\<exists>c\<in>set items. \<exists>k\<in>set keys. toStr (getField c k) \<in> set objectPrototypeKeys)"
proof
  assume "createNestedGroups items keys = Inl TypeError"
  then show "\<exists>c\<in>set items. \<exists>k\<in>set keys. toStr (getField c k) \<in> set objectPrototypeKeys"
    using createNestedGroups_succeeds [of items keys] by auto
next
  assume "\<exists>c\<in>set items. \<exists>k\<in>set keys. toStr (getField c k) \<in> set objectPrototypeKeys"
  then show "createNestedGroups items keys = Inl TypeError"
    by (rule createNestedGroups_fails)
qed



lemma groupByMany_eq_createNestedGroups:
  "groupByMany items keys = createNestedGroups items keys"
proof (induction items keys rule: groupByMany.induct)
  case (1 items)
  then show ?case by simp
next
  case (2 items key)
  then show ?case by (simp add: groupByKey_def map_sum_def split: sum.splits)
next
  case (3 items firstKey nextKey restKeys)
  show ?case
  proof (cases "groupByKey items firstKey")
    case (Inl e)
    then show ?thesis by (simp add: groupByKey_def)
  next
    case (Inr g)
    have eq: "map (\<lambda>(groupKey, groupItems). (groupKey, groupByMany groupItems (nextKey # restKeys))) g
        = map (\<lambda>(groupKey, groupItems).
                 (groupKey, createNestedGroups groupItems (nextKey # restKeys))) g"
      using "3.IH" [OF Inr] by (auto intro!: map_cong)
    from Inr have g: "groupInto (\<lambda>item. toStr (getField item firstKey)) items [] = Inr g"
      by (simp add: groupByKey_def)
    show ?thesis by (simp add: Inr g eq)
  qed
qed

lemma navigateGroups_groupsObject:
  "navigateGroups (groupsObject g) [v] =
     (case map_of g (toStr v) of Some grp \<Rightarrow> map JObj grp | None \<Rightarrow> [])"
  by (auto simp: groupsObject_def map_of_map_entries arrayOrEmpty_def split: option.splits)

lemma navigateGroups_eq_walkGroups:
  "createNestedGroups items keys = Inr tree \<Longrightarrow> length path = length keys
     \<Longrightarrow> \<forall>v\<in>set path. v \<noteq> JNull \<and> v \<noteq> JUndefined
     \<Longrightarrow> navigateGroups tree path = walkGroups tree path"
proof (induction items keys arbitrary: tree path rule: createNestedGroups.induct)
  case (1 items)
  then show ?case by simp
next
  case (2 items key)
  from "2.prems"(1) obtain g where tree: "tree = groupsObject g"
    by (auto split: sum.splits)
  from "2.prems"(2) obtain v where path: "path = [v]"
    by (cases path) auto
  show ?case
    unfolding tree path walkGroups_groupsObject navigateGroups_groupsObject
    using "2.prems"(3) by (simp add: path)
next
  case (3 items firstKey nextKey restKeys)
  let ?rest = "nextKey # restKeys"
  from "3.prems"(1) obtain g r where
    g: "groupInto (\<lambda>item. toStr (getField item firstKey)) items [] = Inr g"
    and r: "assignEntries (map (\<lambda>(groupKey, groupItems).
                (groupKey, createNestedGroups groupItems ?rest)) g) [] = Inr r"
    and tree: "tree = JObj r"
    by (auto split: sum.splits simp: map_sum_def)
  from "3.prems"(2) obtain v vs where path: "path = v # vs" and len: "length vs = length ?rest"
    by (cases path) auto
  from "3.prems"(3) path have v: "v \<noteq> JNull" "v \<noteq> JUndefined"
    and vs: "\<forall>v\<in>set vs. v \<noteq> JNull \<and> v \<noteq> JUndefined"
    by simp_all
  have dist: "distinct (map fst (map (\<lambda>(groupKey, groupItems).
                (groupKey, createNestedGroups groupItems ?rest)) g))"
    using groups_from_empty(2) [OF g] by (simp add: case_prod_beta comp_def)
  show ?case
  proof (cases "map_of r (toStr v)")
    case None
    then show ?thesis by (simp add: tree path)
  next
    case (Some t)
    have look: "map_of r (toStr v)
      = (case map_option (\<lambda>gi. createNestedGroups gi ?rest) (map_of g (toStr v)) of
           Some sub \<Rightarrow> (case sub of Inr t \<Rightarrow> Some t | Inl e \<Rightarrow> None)
         | None \<Rightarrow> None)"
      using assignEntries_map_of [OF r dist, of "toStr v"]
      by (simp add: map_of_map_entries split: option.splits)
    then obtain grp where mg: "map_of g (toStr v) = Some grp"
      and t: "createNestedGroups grp ?rest = Inr t"
      using Some by (auto split: option.splits sum.splits)
    have mem: "(toStr v, grp) \<in> set g"
      using mg by (rule map_of_SomeD)
    have "navigateGroups t vs = walkGroups t vs"
      using "3.IH" [OF g mem refl t len vs] .
    then show ?thesis
      using Some v by (simp add: tree path)
  qed
qed

section \<open>Claim C1: the two composite strategies\<close>




section \<open>Claim C2: every parent once, in order\<close>

text \<open>
  Claim C2 says that every join returns one enriched record per parent. The nested variants
  do not return at all when a child holds a key value such as "constructor": building the
  nested index throws a \<open>TypeError\<close>. The serialized variant, on the same input, returns
  the parent with no match.
\<close>

theorem nested_join_throws:
  "attachChildrenNested [[(''sku'', JStr ''A'')]] [[(''sku'', JStr ''constructor'')]]
     [''sku''] [''sku''] ''stock'' = Inl TypeError
   \<and> attachChildNested [[(''sku'', JStr ''A'')]] [[(''sku'', JStr ''constructor'')]]
     [''sku''] [''sku''] ''stock'' = Inl TypeError
   \<and> attachChildrenComposite [[(''sku'', JStr ''A'')]] [[(''sku'', JStr ''constructor'')]]
     [''sku''] [''sku''] ''stock'' = [[(''sku'', JStr ''A''), (''stock'', JArr [])]]"
  by code_simp

text \<open>
  On every other input the claim holds: each join on a \<open>Map\<close> index returns, for the i-th
  parent, that parent with the output field set, and so does each nested join whenever no key
  value of a child prints as a name inherited from \<open>Object.prototype\<close>.
\<close>

lemma joins_keep_every_parent:
  "(length (attachChildren parents children parentKey childKey as) = length parents
      \<and> (\<forall>i<length parents. \<exists>v. attachChildren parents children parentKey childKey as ! i
                                     = withProperty (parents ! i) as v))
   \<and> (length (attachChild parents children parentKey childKey as) = length parents
      \<and> (\<forall>i<length parents. \<exists>v. attachChild parents children parentKey childKey as ! i
                                     = withProperty (parents ! i) as v))
   \<and> (length (joinBySelectors parents children parentSelector childSelector as mode)
         = length parents
      \<and> (\<forall>i<length parents.
            \<exists>v. joinBySelectors parents children parentSelector childSelector as mode ! i
                   = withProperty (parents ! i) as v))
   \<and> (length (attachChildrenComposite parents children parentKeys childKeys as)
         = length parents
      \<and> (\<forall>i<length parents.
            \<exists>v. attachChildrenComposite parents children parentKeys childKeys as ! i
                   = withProperty (parents ! i) as v))
   \<and> (length (attachChildComposite parents children parentKeys childKeys as)
         = length parents
      \<and> (\<forall>i<length parents.
            \<exists>v. attachChildComposite parents children parentKeys childKeys as ! i
                   = withProperty (parents ! i) as v))
   \<and> (length (attachChildrenWithFilter parents middle children parentKey childParentKey
                  middleKey childKey as childAs middleCardinality childCardinality)
         = length parents
      \<and> (\<forall>i<length parents.
            \<exists>v. attachChildrenWithFilter parents middle children parentKey childParentKey
                   middleKey childKey as childAs middleCardinality childCardinality ! i
                   = withProperty (parents ! i) as v))
   \<and> ((\<forall>c\<in>set children. \<forall>k\<in>set childKeys.
           toStr (getField c k) \<notin> set objectPrototypeKeys)
       \<longrightarrow> (\<exists>out. attachChildrenNested parents children parentKeys childKeys as = Inr out
              \<and> length out = length parents
              \<and> (\<forall>i<length parents. \<exists>v. out ! i = withProperty (parents ! i) as v))
         \<and> (\<exists>out. attachChildNested parents children parentKeys childKeys as = Inr out
              \<and> length out = length parents
              \<and> (\<forall>i<length parents. \<exists>v. out ! i = withProperty (parents ! i) as v)))"
proof -
  have sel: "length (joinBySelectors parents children parentSelector childSelector as mode)
         = length parents
      \<and> (\<forall>i<length parents.
            \<exists>v. joinBySelectors parents children parentSelector childSelector as mode ! i
                   = withProperty (parents ! i) as v)"
    by (cases mode) (auto simp: joinBySelectors_eq)
  have nested: "(\<exists>out. attachChildrenNested parents children parentKeys childKeys as = Inr out
              \<and> length out = length parents
              \<and> (\<forall>i<length parents. \<exists>v. out ! i = withProperty (parents ! i) as v))
         \<and> (\<exists>out. attachChildNested parents children parentKeys childKeys as = Inr out
              \<and> length out = length parents
              \<and> (\<forall>i<length parents. \<exists>v. out ! i = withProperty (parents ! i) as v))"
    if names: "\<forall>c\<in>set children. \<forall>k\<in>set childKeys.
           toStr (getField c k) \<notin> set objectPrototypeKeys"
  proof -
    obtain tree where "createNestedGroups children childKeys = Inr tree"
      using createNestedGroups_succeeds [OF names] by blast
    then show ?thesis
      by (auto simp: attachChildrenNested_def attachChildNested_def Let_def)
  qed
  show ?thesis
    using sel nested
    by (auto simp: attachChildren_eq attachChild_eq attachChildrenComposite_eq
        attachChildComposite_eq attachChildrenWithFilter_eq)
qed

section \<open>Claim C3: the three-level join\<close>

text \<open>
  Claim C3. \<open>attachChildrenWithFilter\<close> attaches to every parent, under \<open>middleAs\<close>, the
  resolution of the sequence of enriched copies of all middle records, in the order of
  \<open>middle\<close> (with \<open>middleCardinality\<close> many or left out: that whole sequence, whatever the
  parent). Each enriched middle record carries under \<open>childAs\<close> the resolution of exactly the
  children whose \<open>childKey\<close> value equals its \<open>middleKey\<close> value and whose \<open>childParentKey\<close>
  value equals the parent's \<open>parentKey\<close> value, in input order: many attaches that sequence as
  it is, one attaches its first element, or \<open>undefined\<close> under a field that is present.
\<close>

theorem filtered_children_per_middle:
  "attachChildrenWithFilter parents middle children parentKey childParentKey middleKey childKey
       middleAs childAs middleCardinality childCardinality
   = map (\<lambda>parent.
           withProperty parent middleAs
             (resolveCardinality middleCardinality
                (map (\<lambda>mid.
                        JObj (withProperty mid childAs
                               (resolveCardinality childCardinality
                                  (map JObj
                                     (ownedChildren children childKey childParentKey
                                        (getField mid middleKey) (getField parent parentKey))))))
                     middle)))
        parents
   \<and> resolveCardinality None xs = JArr xs
   \<and> resolveCardinality (Some Many) xs = JArr xs
   \<and> resolveCardinality (Some One) (v # xs) = v
   \<and> resolveCardinality (Some One) [] = JUndefined
   \<and> map_of (withProperty mid childAs JUndefined) childAs = Some JUndefined"
  by (simp add: attachChildrenWithFilter_eq map_of_withProperty resolveCardinality_def)

theorem filtered_children_witness:
  "attachChildrenWithFilter [[(''id'', JNum 1)]] [[(''id'', JNum 10)], [(''id'', JNum 20)]]
     [[(''id'', JNum 1), (''enrollmentId'', JNum 1), (''feeId'', JNum 10), (''paid'', JNum 100)]]
     ''id'' ''enrollmentId'' ''id'' ''feeId'' ''fees'' ''payment'' None (Some One)
   = [[(''id'', JNum 1),
       (''fees'', JArr
          [JObj [(''id'', JNum 10),
                 (''payment'', JObj [(''id'', JNum 1), (''enrollmentId'', JNum 1),
                                     (''feeId'', JNum 10), (''paid'', JNum 100)])],
           JObj [(''id'', JNum 20), (''payment'', JUndefined)]])]]"
proof -
  have "map (\<lambda>parent.
           withProperty parent ''fees''
             (resolveCardinality None
                (map (\<lambda>mid.
                        JObj (withProperty mid ''payment''
                               (resolveCardinality (Some One)
                                  (map JObj
                                     (ownedChildren [[(''id'', JNum 1), (''enrollmentId'', JNum 1), (''feeId'', JNum 10), (''paid'', JNum 100)]] ''feeId'' ''enrollmentId''
                                        (getField mid ''id'') (getField parent ''id''))))))
                     [[(''id'', JNum 10)], [(''id'', JNum 20)]])))
        [[(''id'', JNum 1)]]
   = [[(''id'', JNum 1),
       (''fees'', JArr
          [JObj [(''id'', JNum 10),
                 (''payment'', JObj [(''id'', JNum 1), (''enrollmentId'', JNum 1),
                                     (''feeId'', JNum 10), (''paid'', JNum 100)])],
           JObj [(''id'', JNum 20), (''payment'', JUndefined)]])]]"
    by code_simp
  then show ?thesis
    using filtered_children_per_middle [of "[[(''id'', JNum 1)]]"
        "[[(''id'', JNum 10)], [(''id'', JNum 20)]]"
        "[[(''id'', JNum 1), (''enrollmentId'', JNum 1), (''feeId'', JNum 10), (''paid'', JNum 100)]]"
        "''id''" "''enrollmentId''" "''id''" "''feeId''" "''fees''" "''payment''" None "Some One"]
    by simp
qed

section \<open>Claim C4: first match wins\<close>




section \<open>Claim C5: cardinality duality\<close>

text \<open>
  Claim C5. On the same inputs and keys, the value \<open>attachChild\<close> attaches to a parent is the
  first element of the sequence \<open>attachChildren\<close> attaches to that parent, or \<open>null\<close> when
  that sequence is empty; \<open>joinBySelectors\<close> in mode one stands in the same relation to
  mode many. The two output sequences are compared position by position.
\<close>

theorem cardinality_duality:
  "map (\<lambda>r. getField r as) (attachChild parents children parentKey childKey as)
     = map (\<lambda>r. firstOrNull (getField r as))
         (attachChildren parents children parentKey childKey as)
   \<and> map (\<lambda>r. getField r as)
         (joinBySelectors parents children parentSelector childSelector as One)
     = map (\<lambda>r. firstOrNull (getField r as))
         (joinBySelectors parents children parentSelector childSelector as Many)"
  by (simp add: attachChild_def attachChildren_def joinBySelectors_def Let_def
      getField_withProperty getOrEmpty_indexMany getOrNull_indexFirst firstOrNull_filter)

theorem cardinality_duality_witness:
  "map (\<lambda>r. getField r ''address'')
     (attachChild [[(''id'', JNum 1)], [(''id'', JNum 2)]]
        [[(''id'', JNum 201), (''userId'', JNum 1)], [(''id'', JNum 202), (''userId'', JNum 1)]]
        ''id'' ''userId'' ''address'')
   = [JObj [(''id'', JNum 201), (''userId'', JNum 1)], JNull]"
proof -
  have "map (\<lambda>r. firstOrNull (getField r ''address''))
     (attachChildren [[(''id'', JNum 1)], [(''id'', JNum 2)]]
        [[(''id'', JNum 201), (''userId'', JNum 1)], [(''id'', JNum 202), (''userId'', JNum 1)]]
        ''id'' ''userId'' ''address'')
   = [JObj [(''id'', JNum 201), (''userId'', JNum 1)], JNull]"
    by code_simp
  then show ?thesis
    using cardinality_duality [of "''address''" "[[(''id'', JNum 1)], [(''id'', JNum 2)]]"
        "[[(''id'', JNum 201), (''userId'', JNum 1)], [(''id'', JNum 202), (''userId'', JNum 1)]]"
        "''id''" "''userId''"]
    by simp
qed

section \<open>Claim C6: key order of \<open>groupBy\<close>\<close>

text \<open>
  Claim C6, amended. When no key of the input is a name inherited from \<open>Object.prototype\<close>,
  \<open>groupBy\<close> returns a mapping with one entry for each distinct key (as a property name),
  in which every group holds exactly the records of its key, in input order. Its keys are
  enumerated with the array indices (the canonical decimal forms of the integers from 0 to
  \<open>2\<^sup>3\<^sup>2 - 2\<close>) first, in ascending numeric order, followed by all other keys in
  first-seen order. So when no key is an array index, the keys are in first-seen order.
\<close>

theorem groupBy_first_seen_order:
  assumes "\<forall>item\<in>set items. toStr (keySelector item) \<notin> set objectPrototypeKeys"
  shows "\<exists>result. groupBy items keySelector = Inr result
           \<and> (\<forall>(groupKey, groupItems)\<in>set result.
                 groupItems = filter (\<lambda>item. toStr (keySelector item) = groupKey) items)
           \<and> set (map fst result) = (\<lambda>item. toStr (keySelector item)) ` set items
           \<and> distinct (map fst result)
           \<and> indexKeysFirst (map fst result)
           \<and> filter (\<lambda>k. arrayIndex k = None) (map fst result)
               = firstSeen (filter (\<lambda>k. arrayIndex k = None)
                              (map (\<lambda>item. toStr (keySelector item)) items))
           \<and> ((\<forall>item\<in>set items. arrayIndex (toStr (keySelector item)) = None)
                \<longrightarrow> map fst result
                      = firstSeen (map (\<lambda>item. toStr (keySelector item)) items))"
proof -
  let ?k = "\<lambda>item. toStr (keySelector item)"
  obtain result where res: "groupInto ?k items [] = Inr result"
    using groupInto_succeeds [of items ?k "[]"] assms by auto
  then have gb: "groupBy items keySelector = Inr result"
    by (simp add: groupBy_def)
  have dist: "distinct (map fst result)"
    using groupInto_distinct [OF res] by simp
  have grp: "\<forall>(groupKey, groupItems)\<in>set result.
                 groupItems = filter (\<lambda>item. ?k item = groupKey) items"
    using groups_from_empty(3) [OF res] by blast
  have order: "indexKeysFirst (map fst result)"
    "filter (\<lambda>k. arrayIndex k = None) (map fst result)
       = firstSeen (filter (\<lambda>k. arrayIndex k = None) (map ?k items))"
    "set (map fst result) = ?k ` set items"
    using groupBy_key_order [OF gb] by simp_all
  have plain: "map fst result = firstSeen (map ?k items)"
    if "\<forall>item\<in>set items. arrayIndex (?k item) = None"
    using groupInto_keys [OF res that] by simp
  show ?thesis
    using gb dist grp order plain by blast
qed

theorem groupBy_first_seen_order_witness:
  "\<exists>result. groupBy [[(''role'', JStr ''user'')], [(''role'', JStr ''admin'')],
                         [(''role'', JStr ''user'')]] (\<lambda>item. getField item ''role'')
                = Inr result
             \<and> map fst result = [''user'', ''admin'']"
proof -
  let ?items = "[[(''role'', JStr ''user'')], [(''role'', JStr ''admin'')],
                 [(''role'', JStr ''user'')]]"
  let ?sel = "\<lambda>item. getField item ''role''"
  have names: "\<forall>item\<in>set ?items. toStr (?sel item) \<notin> set objectPrototypeKeys"
    by (simp add: getField_def objectPrototypeKeys_def)
  have plain: "\<forall>item\<in>set ?items. arrayIndex (toStr (?sel item)) = None"
    by (simp add: getField_def arrayIndex_def isDigit_def)
  obtain result where "groupBy ?items ?sel = Inr result"
    and "(\<forall>item\<in>set ?items. arrayIndex (toStr (?sel item)) = None)
           \<longrightarrow> map fst result = firstSeen (map (\<lambda>item. toStr (?sel item)) ?items)"
    using groupBy_first_seen_order [OF names] by blast
  then show ?thesis using plain by (simp add: getField_def)
qed

text \<open>
  Claim C6 as stated fails for keys that are array indices: an object enumerates them first,
  in ascending numeric order, whatever the order in which they were created. Grouping the
  records with keys 2 and 1, in that order, gives a mapping whose keys are "1", "2".
\<close>

theorem groupBy_order_counterexample:
  "groupBy [[(''k'', JNum 2)], [(''k'', JNum 1)]] (\<lambda>item. getField item ''k'')
     = Inr [(''1'', [[(''k'', JNum 1)]]), (''2'', [[(''k'', JNum 2)]])]
   \<and> firstSeen (map (\<lambda>item. toStr (getField item ''k'')) [[(''k'', JNum 2)], [(''k'', JNum 1)]])
     = [''2'', ''1'']"
  by code_simp

section \<open>Claim C7: grouping trees and the nested index\<close>

text \<open>
  Claim C7, amended. \<open>groupByMany\<close> and \<open>createNestedGroups\<close> build the same tree from the
  same records and fields (and throw on the same inputs); with no fields both return the
  input sequence unchanged, and the empty path leads to it. For a path as long as the field
  tuple, none of whose values is \<open>null\<close> or \<open>undefined\<close>, navigating the tree of
  \<open>groupByMany\<close> level by level yields exactly what \<open>getFromNestedGroups\<close> returns on the
  tree of \<open>createNestedGroups\<close>.
\<close>

theorem grouping_tree_is_nested_index:
  "groupByMany items keys = createNestedGroups items keys
   \<and> groupByMany items [] = Inr (JArr (map JObj items))
   \<and> createNestedGroups items [] = Inr (JArr (map JObj items))
   \<and> navigateGroups (JArr (map JObj items)) [] = map JObj items
   \<and> getFromNestedGroups (JArr (map JObj items)) [] = map JObj items
   \<and> (\<forall>grouped nestedGroups.
          groupByMany items keys = Inr grouped
        \<and> createNestedGroups items keys = Inr nestedGroups
        \<and> length path = length keys
        \<and> (\<forall>v\<in>set path. v \<noteq> JNull \<and> v \<noteq> JUndefined)
        \<longrightarrow> navigateGroups grouped path = getFromNestedGroups nestedGroups path)"
proof -
  have "navigateGroups grouped path = getFromNestedGroups nestedGroups path"
    if "groupByMany items keys = Inr grouped" "createNestedGroups items keys = Inr nestedGroups"
      "length path = length keys" "\<forall>v\<in>set path. v \<noteq> JNull \<and> v \<noteq> JUndefined"
    for grouped nestedGroups
  proof -
    have same: "grouped = nestedGroups"
      using that(1,2) by (simp add: groupByMany_eq_createNestedGroups)
    have "navigateGroups nestedGroups path = walkGroups nestedGroups path"
      using that(2,3,4) by (rule navigateGroups_eq_walkGroups)
    moreover have "getFromNestedGroups nestedGroups path = walkGroups nestedGroups path"
      by (cases path) (simp_all add: getFromNestedGroups_def)
    ultimately show ?thesis using same by simp
  qed
  moreover have "groupByMany items keys = createNestedGroups items keys"
    by (rule groupByMany_eq_createNestedGroups)
  moreover have "groupByMany items [] = Inr (JArr (map JObj items))"
    and "createNestedGroups items [] = Inr (JArr (map JObj items))"
    and "navigateGroups (JArr (map JObj items)) [] = map JObj items"
    and "getFromNestedGroups (JArr (map JObj items)) [] = map JObj items"
    by (simp_all add: getFromNestedGroups_def arrayOrEmpty_def)
  ultimately show ?thesis by blast
qed

theorem grouping_tree_witness:
  "\<exists>grouped.
     groupByMany [[(''country'', JStr ''USA''), (''city'', JStr ''NYC'')],
                  [(''country'', JStr ''USA''), (''city'', JStr ''LA'')],
                  [(''country'', JStr ''Spain''), (''city'', JStr ''Madrid'')]]
       [''country'', ''city''] = Inr grouped
   \<and> navigateGroups grouped [JStr ''USA'', JStr ''LA'']
       = [JObj [(''country'', JStr ''USA''), (''city'', JStr ''LA'')]]"
proof -
  let ?items = "[[(''country'', JStr ''USA''), (''city'', JStr ''NYC'')],
                 [(''country'', JStr ''USA''), (''city'', JStr ''LA'')],
                 [(''country'', JStr ''Spain''), (''city'', JStr ''Madrid'')]]"
  let ?tree = "JObj [(''USA'', JObj [(''NYC'', JArr [JObj [(''country'', JStr ''USA''), (''city'', JStr ''NYC'')]]),
                                     (''LA'', JArr [JObj [(''country'', JStr ''USA''), (''city'', JStr ''LA'')]])]),
                     (''Spain'', JObj [(''Madrid'', JArr [JObj [(''country'', JStr ''Spain''), (''city'', JStr ''Madrid'')]])])]"
  have g: "groupByMany ?items [''country'', ''city''] = Inr ?tree"
    by code_simp
  have c: "createNestedGroups ?items [''country'', ''city''] = Inr ?tree"
    by code_simp
  have l: "getFromNestedGroups ?tree [JStr ''USA'', JStr ''LA'']
             = [JObj [(''country'', JStr ''USA''), (''city'', JStr ''LA'')]]"
    by code_simp
  have "\<forall>grouped nestedGroups.
          groupByMany ?items [''country'', ''city''] = Inr grouped
        \<and> createNestedGroups ?items [''country'', ''city''] = Inr nestedGroups
        \<and> length [JStr ''USA'', JStr ''LA''] = length [''country'', ''city'']
        \<and> (\<forall>v\<in>set [JStr ''USA'', JStr ''LA'']. v \<noteq> JNull \<and> v \<noteq> JUndefined)
        \<longrightarrow> navigateGroups grouped [JStr ''USA'', JStr ''LA'']
              = getFromNestedGroups nestedGroups [JStr ''USA'', JStr ''LA'']"
    using grouping_tree_is_nested_index [of ?items "[''country'', ''city'']"
        "[JStr ''USA'', JStr ''LA'']"]
    by blast
  then have "groupByMany ?items [''country'', ''city''] = Inr ?tree
        \<and> createNestedGroups ?items [''country'', ''city''] = Inr ?tree
        \<and> length [JStr ''USA'', JStr ''LA''] = length [''country'', ''city'']
        \<and> (\<forall>v\<in>set [JStr ''USA'', JStr ''LA'']. v \<noteq> JNull \<and> v \<noteq> JUndefined)
        \<longrightarrow> navigateGroups ?tree [JStr ''USA'', JStr ''LA'']
              = getFromNestedGroups ?tree [JStr ''USA'', JStr ''LA'']"
    by blast
  then have "navigateGroups ?tree [JStr ''USA'', JStr ''LA'']
              = getFromNestedGroups ?tree [JStr ''USA'', JStr ''LA'']"
    using g c by simp
  then show ?thesis using g l by simp
qed

text \<open>
  Claim C7 as stated fails on a path value \<open>null\<close>: a record whose field is \<open>null\<close> is
  grouped under the key "null", which navigation by the value \<open>null\<close> reaches, while
  \<open>getFromNestedGroups\<close> returns the empty sequence for every path that holds \<open>null\<close>.
\<close>

theorem navigation_null_counterexample:
  "groupByMany [[(''a'', JNull)]] [''a''] = Inr (JObj [(''null'', JArr [JObj [(''a'', JNull)]])])
   \<and> createNestedGroups [[(''a'', JNull)]] [''a'']
        = Inr (JObj [(''null'', JArr [JObj [(''a'', JNull)]])])
   \<and> navigateGroups (JObj [(''null'', JArr [JObj [(''a'', JNull)]])]) [JNull]
        = [JObj [(''a'', JNull)]]
   \<and> getFromNestedGroups (JObj [(''null'', JArr [JObj [(''a'', JNull)]])]) [JNull] = []"
  by code_simp

section \<open>Claim C8: the lookup of the nested index\<close>




section \<open>Claim C9: enriched records\<close>




section \<open>Claim C10: how keys are compared\<close>



end
